theory Spec2Isabelle
  imports Main "HOL-Library.Multiset"
begin

section \<open>Paths and the local file tree\<close>

text \<open>
  A \<open>pathlib.Path\<close> is modelled by its components (\<open>Path.parts\<close>), each the name
  of an entry: the components \<open>.\<close> and \<open>..\<close> are not modelled. The local file
  system seen by \<open>upload_directory\<close> is a tree of regular files and directories;
  symbolic links are not modelled. The tree says what a probe answers when it answers;
  that a probe may raise instead is an input of its own (\<open>os_error\<close> below).
\<close>

type_synonym path = "string list"

datatype node = File | Dir "(string \<times> node) list"

fun lookup :: "node \<Rightarrow> path \<Rightarrow> node option" where
  "lookup n [] = Some n"
| "lookup File (c # cs) = None"
| "lookup (Dir es) (c # cs) =
     (case map_of es c of None \<Rightarrow> None | Some n \<Rightarrow> lookup n cs)"

definition exists_path :: "node \<Rightarrow> path \<Rightarrow> bool" where
  "exists_path t p = (lookup t p \<noteq> None)"

definition is_dir :: "node \<Rightarrow> path \<Rightarrow> bool" where
  "is_dir t p = (case lookup t p of Some (Dir es) \<Rightarrow> True | _ \<Rightarrow> False)"

fun is_file :: "node \<Rightarrow> bool" where
  "is_file File = True"
| "is_file (Dir es) = False"

text \<open>
  \<open>Path.rglob('*')\<close>: every entry below a directory, files and directories alike,
  hidden ones included. The children of a directory come first, then the walk descends
  into each child. Entries are paired with the node found there, on which
  \<open>is_file\<close> is then asked.
\<close>

fun rglob :: "path \<Rightarrow> node \<Rightarrow> (path \<times> node) list" where
  "rglob p File = []"
| "rglob p (Dir es) =
     map (\<lambda>e. (p @ [fst e], snd e)) es @ concat (map (\<lambda>e. rglob (p @ [fst e]) (snd e)) es)"

definition rglob_path :: "node \<Rightarrow> path \<Rightarrow> (path \<times> node) list" where
  "rglob_path t p = (case lookup t p of None \<Rightarrow> [] | Some n \<Rightarrow> rglob p n)"

text \<open>
  \<open>file_path.relative_to(local_dir_path)\<close>. It raises when \<open>file_path\<close> is not below
  \<open>local_dir_path\<close>; \<open>rglob\<close> yields only paths below its root (lemma
  \<open>rglob_below\<close>), so that branch is never taken in \<open>upload_directory\<close>.
\<close>

definition relative_to :: "path \<Rightarrow> path \<Rightarrow> path" where
  "relative_to file_path local_dir_path = drop (length local_dir_path) file_path"

text \<open>\<open>Path.name\<close>: the final component, the empty string when there is none.\<close>

definition name :: "path \<Rightarrow> string" where
  "name p = (if p = [] then [] else last p)"

text \<open>
  \<open>str(path)\<close>: the components joined by the separator of the platform, \<open>/\<close> on POSIX
  and the backslash on Windows; the empty relative path prints as a dot. A drive or a
  root anchor is not modelled: it would show in the messages of the error list only,
  the keys are built from relative paths.
\<close>

definition slash :: char where
  "slash = CHR ''/''"

definition backslash :: char where
  "backslash = CHR 0x5C"

fun join :: "char \<Rightarrow> string list \<Rightarrow> string" where
  "join s [] = []"
| "join s [c] = c"
| "join s (c # d # cs) = c @ s # join s (d # cs)"

definition path_str :: "char \<Rightarrow> path \<Rightarrow> string" where
  "path_str s p = (if p = [] then ''.'' else join s p)"

text \<open>\<open>str.replace(old, new)\<close> for one-character strings.\<close>

definition replace :: "char \<Rightarrow> char \<Rightarrow> string \<Rightarrow> string" where
  "replace old new str = map (\<lambda>c. if c = old then new else c) str"

section \<open>The key of an enumerated file\<close>

text \<open>
  Line 149 of \<open>main.py\<close>:
  \<^verbatim>\<open>f"{prefix}{relative_path}".replace('\\', '/') if prefix else str(relative_path).replace('\\', '/')\<close>
\<close>

definition blob_name_for :: "char \<Rightarrow> string \<Rightarrow> path \<Rightarrow> string" where
  "blob_name_for s prefix relative_path =
     (if prefix \<noteq> [] then replace backslash slash (prefix @ path_str s relative_path)
      else replace backslash slash (path_str s relative_path))"

text \<open>
  The list that the loop of lines 145 to 150 builds when no probe raises; the loop with
  its raises is \<open>collect\<close> below.
\<close>

definition files_to_upload :: "char \<Rightarrow> node \<Rightarrow> path \<Rightarrow> string \<Rightarrow> (path \<times> string) list" where
  "files_to_upload s t local_dir_path prefix =
     map (\<lambda>(file_path, n). (file_path, blob_name_for s prefix (relative_to file_path local_dir_path)))
       (filter (\<lambda>(file_path, n). is_file n) (rglob_path t local_dir_path))"

section \<open>The object store and the environment\<close>

datatype exn = NotFound string | Forbidden string | ValueError string | OtherError string

fun exn_str :: "exn \<Rightarrow> string" where
  "exn_str (NotFound m) = m"
| "exn_str (Forbidden m) = m"
| "exn_str (ValueError m) = m"
| "exn_str (OtherError m) = m"

text \<open>
  Everything outside the program is an input of the model: the separator of the
  platform, the file tree at enumeration time, what the operating system raises when a
  path is examined at enumeration time, what \<open>Path.exists()\<close> answers when a task
  runs (the file may have vanished meanwhile, and the probe may itself raise), whether
  \<open>storage.Client(...)\<close> can be built, and the answer of the store to each call
  (\<open>None\<close>: the call returns; \<open>Some x\<close>: it raises \<open>x\<close>).

  \<open>os_error e p = Some x\<close>: examining \<open>p\<close> during enumeration raises \<open>x\<close>.
  \<open>exists()\<close>, \<open>is_dir()\<close> and \<open>is_file()\<close> swallow "not found" only: a name that is too
  long or a parent that may not be searched raises \<open>OSError\<close> or \<open>PermissionError\<close>, and
  lines 140 and 147 stand outside any \<open>try\<close>. An error of \<open>rglob\<close> while it lists a
  directory is taken with the probe of that directory, which the loop examines when the
  directory is yielded (the root at line 140).
\<close>

record env =
  os_sep :: char
  tree :: node
  os_error :: "path \<Rightarrow> exn option"
  path_exists :: "path \<Rightarrow> exn + bool"
  client_init :: "exn option"
  bucket_reload :: "string \<Rightarrow> exn option"
  upload_from_filename :: "string \<Rightarrow> string \<Rightarrow> path \<Rightarrow> exn option"
  blob_make_public :: "string \<Rightarrow> string \<Rightarrow> exn option"

text \<open>The writes attempted on the store, in the order they are made.\<close>

datatype call = Put string string path | MakePublic string string

section \<open>\<open>GCSUploader.upload_file\<close>\<close>

text \<open>
  A call of \<open>upload_file\<close> returns a boolean or lets an exception escape.
  \<open>client.bucket\<close> and \<open>bucket.blob\<close> build local handles without a call to the store
  and are taken to return.
\<close>

datatype outcome = Returned bool | Raised exn

definition resolve_blob_name :: "path \<Rightarrow> string option \<Rightarrow> string" where
  "resolve_blob_name local_file_path blob_name =
     (case blob_name of None \<Rightarrow> name local_file_path | Some b \<Rightarrow> b)"

text \<open>The three handlers of lines 107 to 115; they differ in the message logged only.\<close>

fun handle_upload_exn :: "exn \<Rightarrow> bool" where
  "handle_upload_exn (NotFound m) = False"
| "handle_upload_exn (Forbidden m) = False"
| "handle_upload_exn x = False"

definition upload_file :: "env \<Rightarrow> path \<Rightarrow> string \<Rightarrow> string option \<Rightarrow> bool \<Rightarrow> outcome \<times> call list" where
  "upload_file e local_file_path bucket_name blob_name make_public =
     (case path_exists e local_file_path of
        Inl x \<Rightarrow> (Raised x, [])
      | Inr False \<Rightarrow> (Returned False, [])
      | Inr True \<Rightarrow>
          (let b = resolve_blob_name local_file_path blob_name in
           case upload_from_filename e bucket_name b local_file_path of
             Some x \<Rightarrow> (Returned (handle_upload_exn x), [Put bucket_name b local_file_path])
           | None \<Rightarrow>
               if make_public then
                 (case blob_make_public e bucket_name b of
                    Some x \<Rightarrow>
                      (Returned (handle_upload_exn x),
                       [Put bucket_name b local_file_path, MakePublic bucket_name b])
                  | None \<Rightarrow>
                      (Returned True,
                       [Put bucket_name b local_file_path, MakePublic bucket_name b]))
               else (Returned True, [Put bucket_name b local_file_path])))"

section \<open>\<open>GCSUploader.upload_directory\<close>\<close>

record results =
  success :: int
  failed :: int
  errors :: "string list"

definition empty_results :: results where
  "empty_results = \<lparr>success = 0, failed = 0, errors = []\<rparr>"

text \<open>
  \<open>as_completed\<close> hands the futures over in the order they finish, each exactly once.
  The order is an input: a schedule picks, at each step, which of the futures still
  outstanding finishes next; when the schedule is used up the rest finish in the order
  of submission. Every schedule gives a permutation of the submitted tasks (lemma
  \<open>mset_as_completed\<close>) and every permutation is given by some schedule (lemma
  \<open>as_completed_reaches_every_order\<close>).
\<close>

fun as_completed :: "nat list \<Rightarrow> 'a list \<Rightarrow> 'a list" where
  "as_completed ks [] = []"
| "as_completed [] (x # xs) = x # xs"
| "as_completed (k # ks) (x # xs) =
     (let i = k mod length (x # xs)
      in (x # xs) ! i # as_completed ks (take i (x # xs) @ drop (Suc i) (x # xs)))"

text \<open>The body of the loop over the completed futures, lines 171 to 181.\<close>

definition settle :: "char \<Rightarrow> results \<Rightarrow> path \<Rightarrow> outcome \<Rightarrow> results" where
  "settle s r file_path out =
     (case out of
        Returned ok \<Rightarrow>
          if ok then r\<lparr>success := success r + 1\<rparr>
          else r\<lparr>failed := failed r + 1,
                 errors := errors r @ [''Failed to upload: '' @ path_str s file_path]\<rparr>
      | Raised x \<Rightarrow>
          r\<lparr>failed := failed r + 1,
            errors := errors r @
              [''Error uploading '' @ path_str s file_path @ '': '' @ exn_str x]\<rparr>)"

text \<open>
  The loop itself. The writes of one task are kept together in the trace and the tasks
  follow each other in completion order; how the writes of tasks running at the same
  time interleave is not modelled.
\<close>

fun drain :: "env \<Rightarrow> string \<Rightarrow> bool \<Rightarrow> (path \<times> string) list \<Rightarrow> results \<times> call list
    \<Rightarrow> results \<times> call list" where
  "drain e bucket_name make_public [] acc = acc"
| "drain e bucket_name make_public ((file_path, blob_name) # rest) (r, cs) =
     (case upload_file e file_path bucket_name (Some blob_name) make_public of
        (out, cs') \<Rightarrow>
          drain e bucket_name make_public rest (settle (os_sep e) r file_path out, cs @ cs'))"

text \<open>
  The loop of lines 145 to 150 over the entries that \<open>rglob\<close> yields: \<open>is_file()\<close> is
  asked of every entry, directories included, and the first probe that raises ends the
  loop with its exception.
\<close>

fun collect :: "env \<Rightarrow> path \<Rightarrow> string \<Rightarrow> (path \<times> node) list \<Rightarrow> exn + (path \<times> string) list" where
  "collect e local_dir_path prefix [] = Inr []"
| "collect e local_dir_path prefix ((file_path, n) # rest) =
     (case os_error e file_path of
        Some x \<Rightarrow> Inl x
      | None \<Rightarrow>
          (case collect e local_dir_path prefix rest of
             Inl x \<Rightarrow> Inl x
           | Inr files \<Rightarrow>
               if is_file n
               then Inr ((file_path,
                          blob_name_for (os_sep e) prefix (relative_to file_path local_dir_path))
                         # files)
               else Inr files))"

text \<open>
  \<open>ThreadPoolExecutor(max_workers=n)\<close> raises \<open>ValueError\<close> for \<open>n \<le> 0\<close>; the pool
  is built only after the empty file list has returned.
\<close>

definition upload_directory ::
    "env \<Rightarrow> nat list \<Rightarrow> path \<Rightarrow> string \<Rightarrow> string \<Rightarrow> bool \<Rightarrow> int \<Rightarrow> exn + results \<times> call list" where
  "upload_directory e sched local_dir_path bucket_name prefix make_public max_workers =
     (case os_error e local_dir_path of
        Some x \<Rightarrow> Inl x
      | None \<Rightarrow>
          if \<not> exists_path (tree e) local_dir_path \<or> \<not> is_dir (tree e) local_dir_path
          then Inr (empty_results, [])
          else
            (case collect e local_dir_path prefix (rglob_path (tree e) local_dir_path) of
               Inl x \<Rightarrow> Inl x
             | Inr files \<Rightarrow>
                 if files = [] then Inr (empty_results, [])
                 else if max_workers \<le> 0
                 then Inl (ValueError ''max_workers must be greater than 0'')
                 else Inr (drain e bucket_name make_public (as_completed sched files)
                             (empty_results, []))))"

section \<open>The command line\<close>

definition bucket_exists :: "env \<Rightarrow> string \<Rightarrow> bool" where
  "bucket_exists e bucket_name =
     (case bucket_reload e bucket_name of
        None \<Rightarrow> True
      | Some (NotFound m) \<Rightarrow> False
      | Some x \<Rightarrow> False)"

text \<open>
  The commands return the exit status of the process and the writes attempted.
  \<open>click.Path(exists=True)\<close> rejects a bad argument with status 2 before the command
  body runs, and takes a path whose probe raises for a missing one; \<open>sys.exit(1)\<close> is
  not an \<open>Exception\<close>, so the handler of the command does not catch it; any
  \<open>Exception\<close>, one raised by \<open>upload_directory\<close> among them, ends in \<open>sys.exit(1)\<close>.
\<close>

definition upload :: "env \<Rightarrow> path \<Rightarrow> string \<Rightarrow> string option \<Rightarrow> bool \<Rightarrow> int \<times> call list" where
  "upload e file_path bucket_name blob_name public =
     (if os_error e file_path \<noteq> None \<or> \<not> exists_path (tree e) file_path then (2, [])
      else case client_init e of
        Some x \<Rightarrow> (1, [])
      | None \<Rightarrow>
          if \<not> bucket_exists e bucket_name then (1, [])
          else
            (case upload_file e file_path bucket_name blob_name public of
               (Returned ok, cs) \<Rightarrow> if ok then (0, cs) else (1, cs)
             | (Raised x, cs) \<Rightarrow> (1, cs)))"

definition upload_dir ::
    "env \<Rightarrow> nat list \<Rightarrow> path \<Rightarrow> string \<Rightarrow> string \<Rightarrow> bool \<Rightarrow> int \<Rightarrow> int \<times> call list" where
  "upload_dir e sched directory_path bucket_name prefix public max_workers =
     (if os_error e directory_path \<noteq> None \<or> \<not> is_dir (tree e) directory_path then (2, [])
      else case client_init e of
        Some x \<Rightarrow> (1, [])
      | None \<Rightarrow>
          if \<not> bucket_exists e bucket_name then (1, [])
          else
            (case upload_directory e sched directory_path bucket_name prefix public max_workers of
               Inl x \<Rightarrow> (1, [])
             | Inr (res, cs) \<Rightarrow> if failed res > 0 then (1, cs) else (0, cs)))"

section \<open>Notions used to state the properties\<close>

text \<open>A task succeeds when its call of \<open>upload_file\<close> returns \<open>True\<close>.\<close>

definition succeeded :: "env \<Rightarrow> string \<Rightarrow> bool \<Rightarrow> path \<times> string \<Rightarrow> bool" where
  "succeeded e bucket_name make_public t =
     (fst (upload_file e (fst t) bucket_name (Some (snd t)) make_public) = Returned True)"

text \<open>
  No probe raises during the enumeration below a root: neither on the root (line 140)
  nor on an entry that \<open>rglob\<close> yields (line 147).
\<close>

definition probes_answer :: "env \<Rightarrow> path \<Rightarrow> bool" where
  "probes_answer e root =
     (os_error e root = None \<and> (\<forall>(p, n)\<in>set (rglob_path (tree e) root). os_error e p = None))"

text \<open>
  The number of regular files of a tree, counted on the tree itself and not through
  \<open>rglob\<close>: the count the enumeration is compared with.
\<close>

fun count_files :: "node \<Rightarrow> nat" where
  "count_files File = 1"
| "count_files (Dir es) = sum_list (map (\<lambda>e. count_files (snd e)) es)"

definition files_under :: "node \<Rightarrow> path \<Rightarrow> nat" where
  "files_under t p = (case lookup t p of Some (Dir es) \<Rightarrow> count_files (Dir es) | _ \<Rightarrow> 0)"

text \<open>
  A small environment on which the theorems are exercised: a POSIX tree with a nested
  directory, an empty directory, a directory that holds directories only and a file at
  the top; no probe raises; one bucket exists; the store answers "not found" for a write
  to any other bucket, refuses the key \<open>x.txt\<close> and accepts every other write. In
  \<open>locked_env\<close> the sub-directory \<open>bare/sub\<close> may be listed but not searched: the probe
  of its entry raises.
\<close>

definition demo_tree :: node where
  "demo_tree =
     Dir [(''d'', Dir [(''a'', Dir [(''b'', Dir [(''c.txt'', File)])]), (''x.txt'', File)]),
          (''empty'', Dir []),
          (''bare'', Dir [(''sub'', Dir [(''inner'', Dir [])])]),
          (''f.txt'', File)]"

definition demo_env :: env where
  "demo_env =
     \<lparr>os_sep = CHR ''/'',
      tree = demo_tree,
      os_error = (\<lambda>p. None),
      path_exists = (\<lambda>p. Inr True),
      client_init = None,
      bucket_reload = (\<lambda>b. if b = ''bucket'' then None else Some (NotFound ''404'')),
      upload_from_filename =
        (\<lambda>b k p. if b \<noteq> ''bucket'' then Some (NotFound ''404'')
                 else if k = ''x.txt'' then Some (Forbidden ''403'') else None),
      blob_make_public = (\<lambda>b k. if k = ''secret'' then Some (Forbidden ''403'') else None)\<rparr>"

definition locked_env :: env where
  "locked_env =
     demo_env\<lparr>os_error :=
       (\<lambda>p. if p = [''bare'', ''sub'', ''inner''] then Some (OtherError ''Permission denied'')
            else None)\<rparr>"

section \<open>Auxiliary facts\<close>

subsection \<open>The enumeration\<close>

lemma rglob_below:
  "(q, n) \<in> set (rglob p t) \<Longrightarrow> \<exists>r. r \<noteq> [] \<and> q = p @ r"
proof (induction p t arbitrary: q n rule: rglob.induct)
  case (1 p)
  then show ?case by simp
next
  case (2 p es)
  from "2.prems" consider
    (child) e where "e \<in> set es" "q = p @ [fst e]"
    | (deeper) e where "e \<in> set es" "(q, n) \<in> set (rglob (p @ [fst e]) (snd e))"
    by auto
  then show ?case
  proof cases
    case child
    then show ?thesis by blast
  next
    case deeper
    from "2.IH"[OF deeper] obtain r where "r \<noteq> []" "q = (p @ [fst e]) @ r"
      by blast
    then have "q = p @ (fst e # r)" by simp
    then show ?thesis by blast
  qed
qed

lemma relative_to_below: "relative_to (p @ r) p = r"
  by (simp add: relative_to_def)

lemma length_concat_filter:
  "length (filter P (concat xss)) = sum_list (map (\<lambda>xs. length (filter P xs)) xss)"
  by (induction xss) simp_all

lemma count_files_children:
  "length (filter (\<lambda>e. is_file (snd e)) es)
     + sum_list (map (\<lambda>e. case snd e of File \<Rightarrow> 0 | Dir ds \<Rightarrow> count_files (Dir ds)) es)
   = sum_list (map (\<lambda>e. count_files (snd e)) es)"
proof (induction es)
  case Nil
  show ?case by simp
next
  case (Cons e es)
  show ?case
  proof (cases "snd e")
    case File
    with Cons show ?thesis by simp
  next
    case (Dir ds)
    with Cons show ?thesis by simp
  qed
qed

lemma length_files_rglob:
  "length (filter (\<lambda>(q, n). is_file n) (rglob p t))
     = (case t of File \<Rightarrow> 0 | Dir ds \<Rightarrow> count_files (Dir ds))"
proof (induction p t rule: rglob.induct)
  case (1 p)
  show ?case by simp
next
  case (2 p es)
  have children:
    "length (filter (\<lambda>(q, n). is_file n) (map (\<lambda>e. (p @ [fst e], snd e)) es))
       = length (filter (\<lambda>e. is_file (snd e)) es)"
    by (induction es) simp_all
  have deeper:
    "(\<Sum>e\<leftarrow>es. length (filter (\<lambda>(q, n). is_file n) (rglob (p @ [fst e]) (snd e))))
       = (\<Sum>e\<leftarrow>es. case snd e of File \<Rightarrow> 0 | Dir ds \<Rightarrow> count_files (Dir ds))"
    by (rule arg_cong[where f = sum_list], rule map_cong[OF refl], rule "2.IH")
  have "length (filter (\<lambda>(q, n). is_file n) (rglob p (Dir es)))
          = length (filter (\<lambda>e. is_file (snd e)) es)
            + sum_list (map (\<lambda>e. case snd e of File \<Rightarrow> 0 | Dir ds \<Rightarrow> count_files (Dir ds)) es)"
    using children by (simp add: length_concat_filter comp_def deeper del: count_files.simps)
  then show ?case
    using count_files_children[of es] by simp
qed

lemma length_files_to_upload:
  "length (files_to_upload s t p prefix) = files_under t p"
proof (cases "lookup t p")
  case None
  then show ?thesis
    by (simp add: files_to_upload_def rglob_path_def files_under_def)
next
  case (Some n)
  then show ?thesis
    using length_files_rglob[of p n]
    by (cases n) (simp_all add: files_to_upload_def rglob_path_def files_under_def)
qed

subsection \<open>The completion order\<close>

lemma mset_remove_nth:
  "i < length ys \<Longrightarrow> mset ys = add_mset (ys ! i) (mset (take i ys @ drop (Suc i) ys))"
proof -
  assume i: "i < length ys"
  have "ys = take i ys @ ys ! i # drop (Suc i) ys"
    using i by (rule id_take_nth_drop)
  then have "mset ys = mset (take i ys @ ys ! i # drop (Suc i) ys)"
    by simp
  then show ?thesis by simp
qed

lemma mset_as_completed: "mset (as_completed ks xs) = mset xs"
proof (induction ks xs rule: as_completed.induct)
  case (3 k ks x xs)
  define ys where "ys = x # xs"
  define i where "i = k mod length ys"
  have i: "i < length ys" by (simp add: i_def ys_def)
  have IH: "mset (as_completed ks (take i ys @ drop (Suc i) ys)) = mset (take i ys @ drop (Suc i) ys)"
    using 3 unfolding ys_def i_def by simp
  have step: "as_completed (k # ks) ys = ys ! i # as_completed ks (take i ys @ drop (Suc i) ys)"
    unfolding ys_def i_def by (simp add: Let_def)
  have "mset (as_completed (k # ks) ys) = mset ys"
    unfolding step using IH mset_remove_nth[OF i] by simp
  then show ?case unfolding ys_def .
qed simp_all

lemma as_completed_pick:
  assumes "i < length xs"
  shows "as_completed (i # ks) xs = xs ! i # as_completed ks (take i xs @ drop (Suc i) xs)"
proof (cases xs)
  case Nil
  with assms show ?thesis by simp
next
  case (Cons x xs')
  have "i mod length (x # xs') = i"
    using assms Cons by simp
  then show ?thesis
    unfolding Cons by (simp only: as_completed.simps Let_def)
qed

lemma as_completed_reaches_every_order:
  "mset ys = mset xs \<Longrightarrow> \<exists>ks. as_completed ks xs = ys"
proof (induction ys arbitrary: xs)
  case Nil
  then have "xs = []" by simp
  then show ?case by simp
next
  case (Cons y ys)
  have "y \<in> set xs"
    using Cons.prems by (metis list.set_intros(1) set_mset_mset)
  then obtain i where i: "i < length xs" "xs ! i = y"
    by (auto simp: in_set_conv_nth)
  have "add_mset y (mset ys) = add_mset y (mset (take i xs @ drop (Suc i) xs))"
    using Cons.prems mset_remove_nth[OF i(1)] i(2) by simp
  then have "mset ys = mset (take i xs @ drop (Suc i) xs)"
    by simp
  from Cons.IH[OF this] obtain ks where "as_completed ks (take i xs @ drop (Suc i) xs) = ys"
    by blast
  then have "as_completed (i # ks) xs = y # ys"
    using as_completed_pick[OF i(1)] i(2) by simp
  then show ?case by blast
qed

lemma length_filter_as_completed:
  "length (filter P (as_completed ks xs)) = length (filter P xs)"
proof -
  have "mset (filter P (as_completed ks xs)) = mset (filter P xs)"
    by (simp add: mset_as_completed)
  then show ?thesis by (rule mset_eq_length)
qed

lemma length_as_completed: "length (as_completed ks xs) = length xs"
  using mset_as_completed[of ks xs] by (rule mset_eq_length)

subsection \<open>The loop over the completed futures\<close>

lemma handle_upload_exn_False: "handle_upload_exn x = False"
  by (cases x) simp_all

lemma drain_counts:
  "success (fst (drain e b mp ts acc))
     = success (fst acc) + int (length (filter (succeeded e b mp) ts))
   \<and> failed (fst (drain e b mp ts acc))
     = failed (fst acc) + int (length (filter (\<lambda>t. \<not> succeeded e b mp t) ts))
   \<and> length (errors (fst (drain e b mp ts acc)))
     = length (errors (fst acc)) + length (filter (\<lambda>t. \<not> succeeded e b mp t) ts)"
proof (induction e b mp ts acc rule: drain.induct)
  case (2 e b mp file_path blob_name rest r cs)
  obtain out cs' where u: "upload_file e file_path b (Some blob_name) mp = (out, cs')"
    by (cases "upload_file e file_path b (Some blob_name) mp")
  show ?case using 2[OF u[symmetric]] u
    by (cases out) (auto simp: succeeded_def settle_def)
qed simp

lemma length_filter_split:
  "length (filter P xs) + length (filter (\<lambda>x. \<not> P x) xs) = length xs"
  by (induction xs) simp_all

lemma collect_answers:
  assumes "\<forall>(p, n)\<in>set es. os_error e p = None"
  shows "collect e root prefix es
           = Inr (map (\<lambda>(file_path, n).
                         (file_path, blob_name_for (os_sep e) prefix (relative_to file_path root)))
                    (filter (\<lambda>(file_path, n). is_file n) es))"
  using assms by (induction es) auto

lemma collect_raises:
  assumes "\<not> (\<forall>(p, n)\<in>set es. os_error e p = None)"
  shows "\<exists>x. collect e root prefix es = Inl x"
  using assms
proof (induction es)
  case Nil
  then show ?case by simp
next
  case (Cons a es)
  obtain fp n where a: "a = (fp, n)" by (cases a)
  show ?case
  proof (cases "os_error e fp")
    case (Some x)
    then show ?thesis by (simp add: a)
  next
    case None
    with Cons.prems a have "\<not> (\<forall>(p, n)\<in>set es. os_error e p = None)"
      by auto
    from Cons.IH[OF this] obtain x where "collect e root prefix es = Inl x" ..
    with None show ?thesis by (simp add: a)
  qed
qed

lemma files_to_upload_entry:
  assumes "(fp, key) \<in> set (files_to_upload s t root prefix)"
  shows "\<exists>rel. rel \<noteq> [] \<and> fp = root @ rel \<and> key = blob_name_for s prefix rel"
proof -
  from assms obtain n where n: "(fp, n) \<in> set (rglob_path t root)"
    and key: "key = blob_name_for s prefix (relative_to fp root)"
    by (auto simp: files_to_upload_def)
  from n obtain m where "(fp, n) \<in> set (rglob root m)"
    by (auto simp: rglob_path_def split: option.splits)
  from rglob_below[OF this] obtain rel where "rel \<noteq> []" "fp = root @ rel"
    by blast
  with key show ?thesis
    by (auto simp: relative_to_below)
qed

lemma upload_directory_cases:
  assumes "probes_answer e root"
  shows "upload_directory e sched root b prefix mp mw =
     (if files_to_upload (os_sep e) (tree e) root prefix = [] then Inr (empty_results, [])
      else if mw \<le> 0 then Inl (ValueError ''max_workers must be greater than 0'')
      else Inr (drain e b mp (as_completed sched (files_to_upload (os_sep e) (tree e) root prefix))
                  (empty_results, [])))"
proof -
  from assms have root: "os_error e root = None"
    and entries: "\<forall>(p, n)\<in>set (rglob_path (tree e) root). os_error e p = None"
    by (simp_all add: probes_answer_def)
  have files: "collect e root prefix (rglob_path (tree e) root)
      = Inr (files_to_upload (os_sep e) (tree e) root prefix)"
    using collect_answers[OF entries] by (simp add: files_to_upload_def)
  show ?thesis
  proof (cases "is_dir (tree e) root")
    case True
    then have "exists_path (tree e) root"
      by (auto simp: is_dir_def exists_path_def split: option.splits)
    with True show ?thesis by (simp add: upload_directory_def root files)
  next
    case False
    then have "files_under (tree e) root = 0"
      by (auto simp: is_dir_def files_under_def split: option.splits node.splits)
    then have "files_to_upload (os_sep e) (tree e) root prefix = []"
      using length_files_to_upload[of "os_sep e" "tree e" root prefix] by simp
    with False show ?thesis by (simp add: upload_directory_def root)
  qed
qed

lemma upload_directory_raises:
  assumes "\<not> probes_answer e root"
  shows "\<exists>x. upload_directory e sched root b prefix mp mw = Inl x"
proof (cases "os_error e root")
  case (Some x)
  then show ?thesis by (simp add: upload_directory_def)
next
  case None
  with assms have noisy: "\<not> (\<forall>(p, n)\<in>set (rglob_path (tree e) root). os_error e p = None)"
    by (simp add: probes_answer_def)
  then have "rglob_path (tree e) root \<noteq> []"
    by auto
  then have "is_dir (tree e) root \<and> exists_path (tree e) root"
    by (auto simp: rglob_path_def is_dir_def exists_path_def split: option.splits node.splits)
  moreover from collect_raises[OF noisy] obtain x
    where "collect e root prefix (rglob_path (tree e) root) = Inl x" ..
  ultimately show ?thesis
    using None by (simp add: upload_directory_def)
qed

lemma upload_directory_returns:
  assumes "upload_directory e sched root b prefix mp mw = Inr r"
  shows "probes_answer e root"
proof (rule ccontr)
  assume "\<not> probes_answer e root"
  from upload_directory_raises[OF this] assms show False
    by (metis Inl_Inr_False)
qed

text \<open>
  Where a probe raises, \<open>upload_directory\<close> raises and the command ends with status 1:
  a directory that exists and holds no regular file, with an entry that may not be
  examined.
\<close>

lemma upload_directory_locked_entry:
  "is_dir (tree locked_env) [''bare''] \<and> files_under (tree locked_env) [''bare''] = 0
   \<and> upload_directory locked_env [] [''bare''] ''bucket'' [] False 4
       = Inl (OtherError ''Permission denied'')
   \<and> upload_dir locked_env [] [''bare''] ''bucket'' [] False 4 = (1, [])"
  by code_simp

text \<open>\<open>upload_directory\<close> never asks whether the bucket exists.\<close>

lemma upload_file_ignores_bucket_reload:
  "upload_file (e\<lparr>bucket_reload := r\<rparr>) p b bn mp = upload_file e p b bn mp"
  by (simp add: upload_file_def Let_def split: sum.splits bool.splits option.splits)

lemma drain_ignores_bucket_reload:
  "drain (e\<lparr>bucket_reload := r\<rparr>) b mp ts acc = drain e b mp ts acc"
proof (induction e b mp ts acc rule: drain.induct)
  case (1 e b mp acc)
  show ?case by simp
next
  case (2 e b mp file_path blob_name rest r' cs)
  obtain out cs' where u: "upload_file e file_path b (Some blob_name) mp = (out, cs')"
    by (cases "upload_file e file_path b (Some blob_name) mp")
  show ?case
    using 2[OF u[symmetric]] u by (simp add: upload_file_ignores_bucket_reload)
qed

lemma collect_ignores_bucket_reload:
  "collect (e\<lparr>bucket_reload := r\<rparr>) root prefix es = collect e root prefix es"
  by (induction es) (auto split: option.splits sum.splits)

lemma upload_directory_ignores_bucket_reload:
  "upload_directory (e\<lparr>bucket_reload := r\<rparr>) sched root b prefix mp mw
     = upload_directory e sched root b prefix mp mw"
  by (auto simp: upload_directory_def collect_ignores_bucket_reload drain_ignores_bucket_reload
      split: option.splits sum.splits)

lemma upload_file_True:
  "(fst (upload_file e p b bn mp) = Returned True)
     = (path_exists e p = Inr True
        \<and> upload_from_filename e b (case bn of None \<Rightarrow> name p | Some k \<Rightarrow> k) p = None
        \<and> (mp \<longrightarrow> blob_make_public e b (case bn of None \<Rightarrow> name p | Some k \<Rightarrow> k) = None))"
  by (auto simp: upload_file_def Let_def resolve_blob_name_def handle_upload_exn_False
      split: sum.splits bool.splits option.splits)

lemma succeeded_store:
  "succeeded e b mp (fp, key)
     = (path_exists e fp = Inr True \<and> upload_from_filename e b key fp = None
        \<and> (mp \<longrightarrow> blob_make_public e b key = None))"
  by (simp add: succeeded_def upload_file_True)

lemma bucket_exists_reload: "bucket_exists e b = (bucket_reload e b = None)"
  by (simp add: bucket_exists_def split: option.splits exn.splits)

lemma drain_totals:
  assumes "drain e b mp (as_completed sched fs) (empty_results, []) = (res, cs)"
  shows "success res = int (length (filter (succeeded e b mp) fs))"
    and "failed res = int (length (filter (\<lambda>t. \<not> succeeded e b mp t) fs))"
    and "length (errors res) = length (filter (\<lambda>t. \<not> succeeded e b mp t) fs)"
  using drain_counts[of e b mp "as_completed sched fs" "(empty_results, [])"] assms
  by (simp_all add: length_filter_as_completed empty_results_def)

section \<open>Properties\<close>

text \<open>
  C1. Whenever \<open>upload_directory\<close> returns, the success count plus the failure count
  is the number of regular files enumerated under the root, which is the number of
  regular files of the tree below the root, and the list of errors has one entry for
  each failed task.
\<close>

theorem upload_directory_accounts_for_every_file:
  assumes "upload_directory e sched root b prefix mp mw = Inr (res, cs)"
  shows "success res + failed res = int (length (files_to_upload (os_sep e) (tree e) root prefix))
       \<and> length (files_to_upload (os_sep e) (tree e) root prefix) = files_under (tree e) root
       \<and> int (length (errors res)) = failed res"
proof -
  have pa: "probes_answer e root"
    using assms by (rule upload_directory_returns)
  show ?thesis
  proof (cases "files_to_upload (os_sep e) (tree e) root prefix = []")
    case True
    with assms have "res = empty_results"
      by (simp add: upload_directory_cases[OF pa])
    with True show ?thesis
      using length_files_to_upload[of "os_sep e" "tree e" root prefix]
      by (simp add: empty_results_def)
  next
    case False
    with assms have d: "drain e b mp (as_completed sched (files_to_upload (os_sep e) (tree e) root prefix))
        (empty_results, []) = (res, cs)"
      by (simp add: upload_directory_cases[OF pa] split: if_splits)
    show ?thesis
      using drain_totals[OF d]
        length_filter_split[of "succeeded e b mp" "files_to_upload (os_sep e) (tree e) root prefix"]
      by (simp add: length_files_to_upload)
  qed
qed

theorem upload_directory_accounts_for_every_file_witness:
  "upload_directory demo_env [1] [''d''] ''bucket'' [] False 4
     = Inr (\<lparr>success = 1, failed = 1, errors = [''Failed to upload: d/x.txt'']\<rparr>,
            [Put ''bucket'' ''a/b/c.txt'' [''d'', ''a'', ''b'', ''c.txt''],
             Put ''bucket'' ''x.txt'' [''d'', ''x.txt'']])
   \<and> (1::int) + 1 = int (length (files_to_upload (os_sep demo_env) (tree demo_env) [''d''] []))
   \<and> length (files_to_upload (os_sep demo_env) (tree demo_env) [''d''] [])
       = files_under (tree demo_env) [''d'']"
proof -
  have r: "upload_directory demo_env [1] [''d''] ''bucket'' [] False 4
     = Inr (\<lparr>success = 1, failed = 1, errors = [''Failed to upload: d/x.txt'']\<rparr>,
            [Put ''bucket'' ''a/b/c.txt'' [''d'', ''a'', ''b'', ''c.txt''],
             Put ''bucket'' ''x.txt'' [''d'', ''x.txt'']])"
    by code_simp
  from upload_directory_accounts_for_every_file[OF r] r show ?thesis
    by simp
qed

text \<open>
  C2 (as the code has it). A root that does not exist or is not a directory does not make
  \<open>upload_directory\<close> fail with a "not found" error: when the probe of the root at line
  140 answers, the guard there returns the empty result, and no write is attempted.
\<close>

theorem upload_directory_bad_root_returns_empty:
  assumes "os_error e root = None"
    and "\<not> exists_path (tree e) root \<or> \<not> is_dir (tree e) root"
  shows "upload_directory e sched root b prefix mp mw
           = Inr (\<lparr>success = 0, failed = 0, errors = []\<rparr>, [])"
  using assms by (auto simp: upload_directory_def empty_results_def)

theorem upload_directory_bad_root_returns_empty_witness:
  "os_error demo_env [''f.txt''] = None \<and> \<not> is_dir (tree demo_env) [''f.txt'']
   \<and> upload_directory demo_env [] [''f.txt''] ''bucket'' ''data/'' False 4
       = Inr (\<lparr>success = 0, failed = 0, errors = []\<rparr>, [])"
proof -
  have q: "os_error demo_env [''f.txt''] = None"
    by (simp add: demo_env_def)
  have h: "\<not> is_dir (tree demo_env) [''f.txt'']"
    by (simp add: is_dir_def demo_env_def demo_tree_def)
  from upload_directory_bad_root_returns_empty[OF q disjI2, OF h] q h show ?thesis
    by blast
qed

theorem upload_directory_missing_root_counterexample:
  "os_error demo_env [''missing''] = None \<and> \<not> exists_path (tree demo_env) [''missing'']
   \<and> upload_directory demo_env [] [''missing''] ''bucket'' ''data/'' False 4
       = Inr (\<lparr>success = 0, failed = 0, errors = []\<rparr>, [])"
  by (simp add: upload_directory_def exists_path_def demo_env_def demo_tree_def empty_results_def)

subsection \<open>Replacing the backslash\<close>

lemma replace_append: "replace a b (xs @ ys) = replace a b xs @ replace a b ys"
  by (simp add: replace_def)

lemma replace_absent: "a \<notin> set xs \<Longrightarrow> replace a b xs = xs"
  by (induction xs) (auto simp: replace_def)

lemma replace_join:
  assumes "s = slash \<or> s = backslash" and "\<forall>c\<in>set cs. backslash \<notin> set c"
  shows "replace backslash slash (join s cs) = join slash cs"
  using assms
proof (induction s cs rule: join.induct)
  case (1 s)
  show ?case by (simp add: replace_def)
next
  case (2 s c)
  then show ?case by (simp add: replace_absent)
next
  case (3 s c d cs)
  have sep: "replace backslash slash [s] = [slash]"
    using "3.prems"(1) by (auto simp: replace_def)
  have "replace backslash slash (c @ s # join s (d # cs))
          = replace backslash slash c @ replace backslash slash [s]
            @ replace backslash slash (join s (d # cs))"
    by (simp add: replace_def)
  also have "\<dots> = c @ [slash] @ join slash (d # cs)"
    using 3 sep by (simp add: replace_absent)
  finally show ?case by simp
qed

lemma replace_path_str:
  assumes "s = slash \<or> s = backslash" and "\<forall>c\<in>set cs. backslash \<notin> set c"
  shows "replace backslash slash (path_str s cs) = path_str slash cs"
  using replace_join[OF assms] by (simp add: path_str_def replace_def backslash_def)

text \<open>
  C3 (as the code has it). The replacement of line 149 runs over the whole key, prefix
  included: the key is the prefix with its backslashes replaced, followed by the printed
  relative path with its backslashes replaced. Where neither the prefix nor a component of
  the relative path holds a backslash, the key is the prefix followed by the components
  joined by \<open>/\<close>, on both platforms.
\<close>

theorem blob_name_for_normalises_whole_key:
  "blob_name_for s prefix rel
     = replace backslash slash prefix @ replace backslash slash (path_str s rel)
   \<and> ((s = slash \<or> s = backslash) \<and> backslash \<notin> set prefix
        \<and> (\<forall>c\<in>set rel. backslash \<notin> set c)
      \<longrightarrow> blob_name_for s prefix rel = prefix @ path_str slash rel)"
proof -
  have whole: "blob_name_for s prefix rel
     = replace backslash slash prefix @ replace backslash slash (path_str s rel)"
    by (simp add: blob_name_for_def replace_append) (simp add: replace_def)
  show ?thesis
    using whole by (simp add: replace_absent replace_path_str)
qed

theorem blob_name_for_normalises_whole_key_witness:
  "blob_name_for backslash ''data/'' [''a'', ''b'', ''c.txt''] = ''data/a/b/c.txt''"
proof -
  have h: "(backslash = slash \<or> backslash = backslash) \<and> backslash \<notin> set ''data/''
        \<and> (\<forall>c\<in>set [''a'', ''b'', ''c.txt'']. backslash \<notin> set c)"
    by (simp add: backslash_def)
  from blob_name_for_normalises_whole_key[THEN conjunct2, THEN mp, OF h] show ?thesis
    by (simp add: path_str_def slash_def)
qed

theorem blob_name_for_prefix_counterexample:
  "blob_name_for slash [CHR ''p'', backslash] [''f.txt'']
     \<noteq> [CHR ''p'', backslash] @ replace backslash slash (path_str slash [''f.txt''])"
  by (simp add: blob_name_for_def replace_def path_str_def slash_def backslash_def)



text \<open>
  C5. A store error inside \<open>upload_file\<close> becomes the boolean it returns, and an
  exception that escapes \<open>upload_file\<close> is caught by the loop over the completed futures:
  once the enumeration has raised nothing and the pool exists the batch returns, with one
  success counted for each task whose upload returned \<open>True\<close> and one failure for each
  other task, whatever the other tasks did and in whatever order the tasks finish.
\<close>

theorem task_failure_never_aborts_batch:
  assumes "0 < mw" and "probes_answer e root"
  shows "(\<forall>p bn ex. path_exists e p = Inr ex
            \<longrightarrow> (\<exists>ok. fst (upload_file e p b bn mp) = Returned ok))
       \<and> (\<exists>res cs. upload_directory e sched root b prefix mp mw = Inr (res, cs)
            \<and> success res
                = int (length (filter (succeeded e b mp)
                         (files_to_upload (os_sep e) (tree e) root prefix)))
            \<and> failed res
                = int (length (filter (\<lambda>t. \<not> succeeded e b mp t)
                         (files_to_upload (os_sep e) (tree e) root prefix))))"
proof (rule conjI)
  show "\<forall>p bn ex. path_exists e p = Inr ex
            \<longrightarrow> (\<exists>ok. fst (upload_file e p b bn mp) = Returned ok)"
    by (auto simp: upload_file_def Let_def split: option.splits bool.splits)
next
  let ?fs = "files_to_upload (os_sep e) (tree e) root prefix"
  show "\<exists>res cs. upload_directory e sched root b prefix mp mw = Inr (res, cs)
            \<and> success res = int (length (filter (succeeded e b mp) ?fs))
            \<and> failed res = int (length (filter (\<lambda>t. \<not> succeeded e b mp t) ?fs))"
  proof (cases "?fs = []")
    case True
    then show ?thesis
      by (simp add: upload_directory_cases[OF assms(2)] empty_results_def)
  next
    case False
    obtain res cs where d: "drain e b mp (as_completed sched ?fs) (empty_results, []) = (res, cs)"
      by (cases "drain e b mp (as_completed sched ?fs) (empty_results, [])")
    have "upload_directory e sched root b prefix mp mw = Inr (res, cs)"
      using False assms(1) d by (simp add: upload_directory_cases[OF assms(2)])
    then show ?thesis
      using drain_totals(1,2)[OF d] by blast
  qed
qed

theorem task_failure_never_aborts_batch_witness:
  "(\<exists>ok. fst (upload_file demo_env [''d'', ''x.txt''] ''bucket'' (Some ''x.txt'') True) = Returned ok)
   \<and> (\<exists>res cs. upload_directory demo_env [1] [''d''] ''bucket'' [] True 4 = Inr (res, cs)
          \<and> success res = 1 \<and> failed res = 1)"
proof -
  have s: "length (filter (succeeded demo_env ''bucket'' True)
             (files_to_upload (os_sep demo_env) (tree demo_env) [''d''] [])) = 1"
    by code_simp
  have f: "length (filter (\<lambda>t. \<not> succeeded demo_env ''bucket'' True t)
             (files_to_upload (os_sep demo_env) (tree demo_env) [''d''] [])) = 1"
    by code_simp
  have w: "(0::int) < 4" by simp
  have q: "probes_answer demo_env [''d'']"
    by (simp add: probes_answer_def demo_env_def)
  have x: "path_exists demo_env [''d'', ''x.txt''] = Inr True"
    by (simp add: demo_env_def)
  note batch = task_failure_never_aborts_batch[OF w q, of "''bucket''" True "[1]" "[]"]
  from batch[THEN conjunct1] x
  have one: "\<exists>ok. fst (upload_file demo_env [''d'', ''x.txt''] ''bucket'' (Some ''x.txt'') True) = Returned ok"
    by blast
  from batch[THEN conjunct2]
  have all: "\<exists>res cs. upload_directory demo_env [1] [''d''] ''bucket'' [] True 4 = Inr (res, cs)
          \<and> success res = 1 \<and> failed res = 1"
    unfolding s f by simp
  from one all show ?thesis by (rule conjI)
qed

text \<open>
  C6. When the local file is there and the write succeeds, an upload with
  \<open>make_public\<close> requested makes the visibility call right after the write, and it
  returns \<open>True\<close> exactly when that call succeeds: a failed visibility call makes the task
  a failure.
\<close>

theorem make_public_failure_fails_task:
  assumes "path_exists e p = Inr True"
    and "upload_from_filename e b (resolve_blob_name p bn) p = None"
  shows "snd (upload_file e p b bn True)
           = [Put b (resolve_blob_name p bn) p, MakePublic b (resolve_blob_name p bn)]
       \<and> fst (upload_file e p b bn True)
           = Returned (blob_make_public e b (resolve_blob_name p bn) = None)"
  using assms
  by (cases "blob_make_public e b (resolve_blob_name p bn)")
     (simp_all add: upload_file_def Let_def handle_upload_exn_False)

theorem make_public_failure_fails_task_witness:
  "upload_file demo_env [''f.txt''] ''bucket'' (Some ''secret'') True
     = (Returned False, [Put ''bucket'' ''secret'' [''f.txt''], MakePublic ''bucket'' ''secret''])"
proof -
  have x: "path_exists demo_env [''f.txt''] = Inr True"
    by (simp add: demo_env_def)
  have w: "upload_from_filename demo_env ''bucket'' (resolve_blob_name [''f.txt''] (Some ''secret''))
             [''f.txt''] = None"
    by (simp add: demo_env_def resolve_blob_name_def)
  have v: "blob_make_public demo_env ''bucket'' ''secret'' \<noteq> None"
    by (simp add: demo_env_def)
  from make_public_failure_fails_task[OF x w] v show ?thesis
    by (simp add: resolve_blob_name_def prod_eq_iff)
qed

text \<open>
  C7 (as the code has it). The bucket is checked by the \<open>upload_dir\<close> command, not by
  \<open>upload_directory\<close>: when \<open>bucket.reload()\<close> raises for the bucket, the command ends
  with a non-zero status before \<open>upload_directory\<close> is called, and no write is attempted.
\<close>

theorem missing_bucket_short_circuits:
  assumes "bucket_reload e b \<noteq> None"
  shows "fst (upload_dir e sched d b prefix public mw) \<noteq> 0
       \<and> snd (upload_dir e sched d b prefix public mw) = []"
proof -
  from assms obtain x where x: "bucket_reload e b = Some x"
    by blast
  have "\<not> bucket_exists e b"
    by (cases x) (simp_all add: bucket_exists_def x)
  then show ?thesis
    by (simp add: upload_dir_def split: option.splits)
qed

theorem missing_bucket_short_circuits_witness:
  "bucket_reload demo_env ''nobucket'' = Some (NotFound ''404'')
   \<and> fst (upload_dir demo_env [] [''d''] ''nobucket'' [] False 4) \<noteq> 0
   \<and> snd (upload_dir demo_env [] [''d''] ''nobucket'' [] False 4) = []"
proof -
  have r: "bucket_reload demo_env ''nobucket'' = Some (NotFound ''404'')"
    by (simp add: demo_env_def)
  then have h: "bucket_reload demo_env ''nobucket'' \<noteq> None"
    by simp
  from missing_bucket_short_circuits[OF h, of "[]" "[''d'']" "[]" False 4] r show ?thesis
    by blast
qed

theorem upload_directory_missing_bucket_counterexample:
  "bucket_reload demo_env ''nobucket'' = Some (NotFound ''404'')
   \<and> \<not> bucket_exists demo_env ''nobucket''
   \<and> upload_directory demo_env [] [''d''] ''nobucket'' [] False 4
       = Inr (\<lparr>success = 0, failed = 2,
               errors = [''Failed to upload: d/x.txt'', ''Failed to upload: d/a/b/c.txt'']\<rparr>,
              [Put ''nobucket'' ''x.txt'' [''d'', ''x.txt''],
               Put ''nobucket'' ''a/b/c.txt'' [''d'', ''a'', ''b'', ''c.txt'']])"
  by code_simp

text \<open>
  C8. Each of the two upload commands ends with status 0 exactly when its argument
  passed the check of the command line, the client could be built, \<open>bucket.reload()\<close>
  returned for the bucket, and every file was uploaded successfully: its probe at
  execution time found it, its write returned and, where asked for, its visibility call
  returned. For \<open>upload_dir\<close> this is asked of every enumerated file, the enumeration
  must have raised nothing, and the pool must have been built whenever there was a file
  to upload. In every other case, a missing or inaccessible bucket and a failed file
  among them, the status is not 0.
\<close>

theorem cli_exit_status:
  "((fst (upload e p b bn public) = 0)
      = (os_error e p = None \<and> exists_path (tree e) p \<and> client_init e = None
         \<and> bucket_reload e b = None \<and> path_exists e p = Inr True
         \<and> upload_from_filename e b (case bn of None \<Rightarrow> name p | Some k \<Rightarrow> k) p = None
         \<and> (public \<longrightarrow>
              blob_make_public e b (case bn of None \<Rightarrow> name p | Some k \<Rightarrow> k) = None)))
   \<and> ((fst (upload_dir e sched d b prefix public mw) = 0)
      = (os_error e d = None \<and> is_dir (tree e) d \<and> client_init e = None
         \<and> bucket_reload e b = None
         \<and> (\<forall>(q, n)\<in>set (rglob_path (tree e) d). os_error e q = None)
         \<and> (files_to_upload (os_sep e) (tree e) d prefix = [] \<or> 0 < mw)
         \<and> (\<forall>(fp, key)\<in>set (files_to_upload (os_sep e) (tree e) d prefix).
               path_exists e fp = Inr True \<and> upload_from_filename e b key fp = None
               \<and> (public \<longrightarrow> blob_make_public e b key = None))))"
proof (rule conjI)
  have "(fst (upload e p b bn public) = 0)
      = (os_error e p = None \<and> exists_path (tree e) p \<and> client_init e = None
         \<and> bucket_exists e b \<and> fst (upload_file e p b bn public) = Returned True)"
    by (auto simp: upload_def split: option.splits prod.splits outcome.splits)
  then show "(fst (upload e p b bn public) = 0)
      = (os_error e p = None \<and> exists_path (tree e) p \<and> client_init e = None
         \<and> bucket_reload e b = None \<and> path_exists e p = Inr True
         \<and> upload_from_filename e b (case bn of None \<Rightarrow> name p | Some k \<Rightarrow> k) p = None
         \<and> (public \<longrightarrow>
              blob_make_public e b (case bn of None \<Rightarrow> name p | Some k \<Rightarrow> k) = None))"
    by (simp only: bucket_exists_reload upload_file_True)
next
  let ?fs = "files_to_upload (os_sep e) (tree e) d prefix"
  let ?quiet = "\<forall>(q, n)\<in>set (rglob_path (tree e) d). os_error e q = None"
  let ?ok = "os_error e d = None \<and> is_dir (tree e) d \<and> client_init e = None
      \<and> bucket_reload e b = None"
  let ?all = "\<forall>(fp, key)\<in>set ?fs.
      path_exists e fp = Inr True \<and> upload_from_filename e b key fp = None
      \<and> (public \<longrightarrow> blob_make_public e b key = None)"
  have all: "(\<forall>t\<in>set ?fs. succeeded e b public t) = ?all"
    by (auto simp: succeeded_store)
  have "(fst (upload_dir e sched d b prefix public mw) = 0)
      = (?ok \<and> ?quiet \<and> (?fs = [] \<or> 0 < mw) \<and> ?all)"
  proof (cases ?ok)
    case False
    then show ?thesis
      by (auto simp: upload_dir_def bucket_exists_reload split: option.splits)
  next
    case True
    then have cli: "upload_dir e sched d b prefix public mw
        = (case upload_directory e sched d b prefix public mw of
             Inl x \<Rightarrow> (1, [])
           | Inr (res, cs) \<Rightarrow> if failed res > 0 then (1, cs) else (0, cs))"
      by (simp add: upload_dir_def bucket_exists_reload)
    show ?thesis
    proof (cases ?quiet)
      case noisy: False
      then have "\<not> probes_answer e d"
        by (simp add: probes_answer_def)
      from upload_directory_raises[OF this] obtain x
        where "upload_directory e sched d b prefix public mw = Inl x" ..
      then show ?thesis
        using noisy by (simp add: cli)
    next
      case quiet: True
      with True have pa: "probes_answer e d"
        by (simp add: probes_answer_def)
      show ?thesis
      proof (cases "?fs = []")
        case empty: True
        then show ?thesis
          using True quiet by (simp add: cli upload_directory_cases[OF pa] empty_results_def)
      next
        case files: False
        show ?thesis
        proof (cases "0 < mw")
          case False
          then show ?thesis
            using True files by (simp add: cli upload_directory_cases[OF pa])
        next
          case pool: True
          obtain res cs where dr:
            "drain e b public (as_completed sched ?fs) (empty_results, []) = (res, cs)"
            by (cases "drain e b public (as_completed sched ?fs) (empty_results, [])")
          have run: "upload_directory e sched d b prefix public mw = Inr (res, cs)"
            using files pool dr by (simp add: upload_directory_cases[OF pa])
          have "(failed res > 0) = (filter (\<lambda>t. \<not> succeeded e b public t) ?fs \<noteq> [])"
            using drain_totals(2)[OF dr] by simp
          also have "\<dots> = (\<not> (\<forall>t\<in>set ?fs. succeeded e b public t))"
            by (simp add: filter_empty_conv)
          finally have "(failed res > 0) = (\<not> ?all)"
            by (simp only: all)
          then show ?thesis
            using True pool quiet by (simp add: cli run)
        qed
      qed
    qed
  qed
  then show "(fst (upload_dir e sched d b prefix public mw) = 0)
      = (os_error e d = None \<and> is_dir (tree e) d \<and> client_init e = None
         \<and> bucket_reload e b = None \<and> ?quiet \<and> (?fs = [] \<or> 0 < mw) \<and> ?all)"
    by (simp only: conj_assoc)
qed

theorem cli_exit_status_witness:
  "fst (upload demo_env [''f.txt''] ''bucket'' None True) = 0
   \<and> fst (upload_dir demo_env [1] [''d''] ''bucket'' ''data/'' True 4) = 0"
proof -
  have one: "os_error demo_env [''f.txt''] = None \<and> exists_path (tree demo_env) [''f.txt'']
      \<and> client_init demo_env = None \<and> bucket_reload demo_env ''bucket'' = None
      \<and> path_exists demo_env [''f.txt''] = Inr True
      \<and> upload_from_filename demo_env ''bucket''
            (case None of None \<Rightarrow> name [''f.txt''] | Some k \<Rightarrow> k) [''f.txt''] = None
      \<and> (True \<longrightarrow>
            blob_make_public demo_env ''bucket''
              (case None of None \<Rightarrow> name [''f.txt''] | Some k \<Rightarrow> k) = None)"
    by code_simp
  have many: "os_error demo_env [''d''] = None \<and> is_dir (tree demo_env) [''d'']
      \<and> client_init demo_env = None \<and> bucket_reload demo_env ''bucket'' = None
      \<and> (\<forall>(q, n)\<in>set (rglob_path (tree demo_env) [''d'']). os_error demo_env q = None)
      \<and> (files_to_upload (os_sep demo_env) (tree demo_env) [''d''] ''data/'' = [] \<or> (0::int) < 4)
      \<and> (\<forall>(fp, key)\<in>set (files_to_upload (os_sep demo_env) (tree demo_env) [''d''] ''data/'').
            path_exists demo_env fp = Inr True
            \<and> upload_from_filename demo_env ''bucket'' key fp = None
            \<and> (True \<longrightarrow> blob_make_public demo_env ''bucket'' key = None))"
    by code_simp
  from cli_exit_status[THEN conjunct1, THEN iffD2, OF one]
       cli_exit_status[THEN conjunct2, THEN iffD2, OF many]
  show ?thesis by (rule conjI)
qed

text \<open>
  C10. When no destination key is given and the local file is there, the key that
  \<open>upload_file\<close> writes to is the final component of the local path.
\<close>

theorem default_blob_name_is_basename:
  assumes "path_exists e p = Inr True" and "p \<noteq> []"
  shows "\<exists>rest. snd (upload_file e p b None mp) = Put b (last p) p # rest"
  using assms
  by (simp add: upload_file_def Let_def resolve_blob_name_def name_def split: option.splits)

theorem default_blob_name_is_basename_witness:
  "\<exists>rest. snd (upload_file demo_env [''d'', ''a'', ''b'', ''c.txt''] ''bucket'' None False)
     = Put ''bucket'' ''c.txt'' [''d'', ''a'', ''b'', ''c.txt''] # rest"
proof -
  have x: "path_exists demo_env [''d'', ''a'', ''b'', ''c.txt''] = Inr True"
    by (simp add: demo_env_def)
  have n: "[''d'', ''a'', ''b'', ''c.txt''] \<noteq> []"
    by simp
  from default_blob_name_is_basename[OF x n, of "''bucket''" False] show ?thesis
    by simp
qed

end
